theory Spec2Isabelle
  imports Main "HOL-Library.Char_ord" "HOL-Library.List_Lexorder" "HOL-Library.Product_Lexorder"
    "HOL-Library.Multiset"
begin

section \<open>Fitness certificates: data layer of \<^verbatim>\<open>fitness_certificates_ai.py\<close>\<close>

text \<open>
  The development embeds the certificate store, the date normaliser, the CSV upsert, the
  two report queries and the CRUD functions of \<^verbatim>\<open>fitness_certificates_ai.py\<close>.

  Conventions of the embedding.
  \<^item> Strings are byte strings; \<^verbatim>\<open>lower\<close>, \<^verbatim>\<open>upper\<close> and \<^verbatim>\<open>strip\<close> act on the ASCII
    range, which is where Python's methods and these agree.
  \<^item> A datetime is the wall-clock reading in the reference timezone (Asia/Kolkata, taken
    as one fixed offset): year, month, day and the time of day. Comparing two such
    readings field by field is comparing the instants.
  \<^item> The clock (\<^verbatim>\<open>_now()\<close>) is an argument \<open>now\<close>.
  \<^item> The table is the list of its rows in insertion order; a function that writes
    returns the new table. A Python exception is a value \<open>Inl e\<close>.
  \<^item> \<^verbatim>\<open>pandas.to_datetime\<close> is not code of the repository: the heuristic parse of one
    string is the argument \<open>fb\<close>, the parse of a column is the argument \<open>td\<close>.
\<close>

subsection \<open>Strings\<close>

definition lower_char :: "char \<Rightarrow> char" where
  "lower_char c = (let n = (of_char c :: nat) in if 65 \<le> n \<and> n \<le> 90 then char_of (n + 32) else c)"

definition upper_char :: "char \<Rightarrow> char" where
  "upper_char c = (let n = (of_char c :: nat) in if 97 \<le> n \<and> n \<le> 122 then char_of (n - 32) else c)"

definition lower :: "string \<Rightarrow> string" where
  "lower s = map lower_char s"

definition upper :: "string \<Rightarrow> string" where
  "upper s = map upper_char s"

definition is_space :: "char \<Rightarrow> bool" where
  "is_space c = (let n = (of_char c :: nat) in (9 \<le> n \<and> n \<le> 13) \<or> (28 \<le> n \<and> n \<le> 32))"

definition strip :: "string \<Rightarrow> string" where
  "strip s = rev (dropWhile is_space (rev (dropWhile is_space s)))"

definition startswith :: "string \<Rightarrow> string \<Rightarrow> bool" where
  "startswith x p = (take (length p) x = p)"

definition is_digit :: "char \<Rightarrow> bool" where
  "is_digit c = (let n = (of_char c :: nat) in 48 \<le> n \<and> n \<le> 57)"

definition digit_val :: "char \<Rightarrow> nat" where
  "digit_val c = of_char c - 48"

definition digit_in :: "nat \<Rightarrow> nat \<Rightarrow> char \<Rightarrow> bool" where
  "digit_in lo hi c = (is_digit c \<and> lo \<le> digit_val c \<and> digit_val c \<le> hi)"

subsection \<open>Datetimes and calendar arithmetic\<close>

record datetime =
  year :: nat
  month :: nat
  day :: nat
  tod :: nat

text \<open>The time of day \<open>tod\<close> counts microseconds since midnight.\<close>

definition dt_key :: "datetime \<Rightarrow> nat \<times> nat \<times> nat \<times> nat" where
  "dt_key t = (year t, month t, day t, tod t)"

definition dt_le :: "datetime \<Rightarrow> datetime \<Rightarrow> bool" where
  "dt_le a b = (dt_key a \<le> dt_key b)"

definition dt_max :: "datetime \<Rightarrow> datetime \<Rightarrow> datetime" where
  "dt_max a b = (if dt_le a b then b else a)"

definition is_leap :: "nat \<Rightarrow> bool" where
  "is_leap y = (y mod 4 = 0 \<and> (y mod 100 \<noteq> 0 \<or> y mod 400 = 0))"

definition days_in_month :: "nat \<Rightarrow> nat \<Rightarrow> nat" where
  "days_in_month y m =
     (if m = 2 then (if is_leap y then 29 else 28)
      else if m = 4 \<or> m = 6 \<or> m = 9 \<or> m = 11 then 30 else 31)"

definition days_before_year :: "nat \<Rightarrow> int" where
  "days_before_year y = (let z = int y - 1 in z * 365 + z div 4 - z div 100 + z div 400)"

definition days_before_month :: "nat \<Rightarrow> nat \<Rightarrow> int" where
  "days_before_month y m =
     int ([0, 0, 31, 59, 90, 120, 151, 181, 212, 243, 273, 304, 334] ! (if m \<le> 12 then m else 0))
       + (if m > 2 \<and> is_leap y then 1 else 0)"

text \<open>\<^verbatim>\<open>datetime.date()\<close> followed by the ordinal that date subtraction works on.\<close>

definition date_ordinal :: "datetime \<Rightarrow> int" where
  "date_ordinal t = days_before_year (year t) + days_before_month (year t) (month t) + int (day t)"

subsection \<open>\<^verbatim>\<open>datetime.strptime\<close> on the date formats of the source\<close>

text \<open>
  The library compiles a format into a regular expression, one group with ordered
  alternatives per directive: \<^verbatim>\<open>%Y\<close> is four digits, \<^verbatim>\<open>%m\<close> is
  \<^verbatim>\<open>1[0-2]|0[1-9]|[1-9]\<close>, \<^verbatim>\<open>%d\<close> is \<^verbatim>\<open>3[0-1]|[1-2]\d|0[1-9]|[1-9]| [1-9]\<close>.
  The first match in backtracking order is taken; text left over after it, or a date the
  calendar does not have, is an error. \<open>re_match\<close> lists the matches in that order as
  (year, month, day, unread rest).
\<close>

datatype directive = DY | Dm | Dd | Lit char | Bad

fun parse_format :: "string \<Rightarrow> directive list" where
  "parse_format [] = []"
| "parse_format [c] = (if c = CHR ''%'' then [Bad] else [Lit c])"
| "parse_format (c # e # cs) =
     (if c = CHR ''%'' then
        (if e = CHR ''Y'' then DY else if e = CHR ''m'' then Dm
         else if e = CHR ''d'' then Dd else Bad) # parse_format cs
      else Lit c # parse_format (e # cs))"

fun y_alts :: "string \<Rightarrow> (nat \<times> string) list" where
  "y_alts (a # b # c # d # rest) =
     (if is_digit a \<and> is_digit b \<and> is_digit c \<and> is_digit d
      then [(1000 * digit_val a + 100 * digit_val b + 10 * digit_val c + digit_val d, rest)]
      else [])"
| "y_alts _ = []"

definition two :: "(char \<Rightarrow> bool) \<Rightarrow> (char \<Rightarrow> bool) \<Rightarrow> string \<Rightarrow> (nat \<times> string) list" where
  "two p q s = (case s of a # b # rest \<Rightarrow>
       (if p a \<and> q b then [((if is_digit a then 10 * digit_val a else 0) + digit_val b, rest)] else [])
     | _ \<Rightarrow> [])"

definition one :: "(char \<Rightarrow> bool) \<Rightarrow> string \<Rightarrow> (nat \<times> string) list" where
  "one p s = (case s of a # rest \<Rightarrow> (if p a then [(digit_val a, rest)] else []) | _ \<Rightarrow> [])"

definition m_alts :: "string \<Rightarrow> (nat \<times> string) list" where
  "m_alts s = two (digit_in 1 1) (digit_in 0 2) s @ two (digit_in 0 0) (digit_in 1 9) s
              @ one (digit_in 1 9) s"

definition d_alts :: "string \<Rightarrow> (nat \<times> string) list" where
  "d_alts s = two (digit_in 3 3) (digit_in 0 1) s @ two (digit_in 1 2) is_digit s
              @ two (digit_in 0 0) (digit_in 1 9) s @ one (digit_in 1 9) s
              @ two (\<lambda>c. c = CHR '' '') (digit_in 1 9) s"

fun re_match :: "directive list \<Rightarrow> string \<Rightarrow> (nat \<times> nat \<times> nat \<times> string) list" where
  "re_match [] s = [(0, 0, 0, s)]"
| "re_match (DY # ds) s =
     concat (map (\<lambda>(v, rest). map (\<lambda>(y, m, d, r). (v, m, d, r)) (re_match ds rest)) (y_alts s))"
| "re_match (Dm # ds) s =
     concat (map (\<lambda>(v, rest). map (\<lambda>(y, m, d, r). (y, v, d, r)) (re_match ds rest)) (m_alts s))"
| "re_match (Dd # ds) s =
     concat (map (\<lambda>(v, rest). map (\<lambda>(y, m, d, r). (y, m, v, r)) (re_match ds rest)) (d_alts s))"
| "re_match (Lit c # ds) s =
     (case s of [] \<Rightarrow> [] | a # rest \<Rightarrow> if lower_char a = lower_char c then re_match ds rest else [])"
| "re_match (Bad # ds) s = []"

text \<open>\<open>None\<close> stands for the \<^verbatim>\<open>ValueError\<close> that the callers catch.\<close>

definition strptime :: "string \<Rightarrow> string \<Rightarrow> datetime option" where
  "strptime s fmt =
     (case re_match (parse_format fmt) s of
        [] \<Rightarrow> None
      | (y, m, d, rest) # _ \<Rightarrow>
          if rest \<noteq> [] then None
          else if y < 1 \<or> d > days_in_month y m then None
          else Some \<lparr>year = y, month = m, day = d, tod = 0\<rparr>)"

subsection \<open>The date normaliser \<^verbatim>\<open>_to_dt\<close>\<close>

text \<open>
  The values that reach \<^verbatim>\<open>_to_dt\<close>: \<^verbatim>\<open>None\<close>, a string, a datetime (a pandas
  \<^verbatim>\<open>Timestamp\<close> is one), pandas' \<^verbatim>\<open>NaT\<close>, and any other object, which only matters
  through its \<^verbatim>\<open>str()\<close>.
\<close>

datatype pyval = PNone | PStr string | PDatetime datetime | PNaT | POther string

datatype error = ValueError | IntegrityError

definition first_format :: "string \<Rightarrow> string list \<Rightarrow> datetime option" where
  "first_format s fmts = (case List.map_filter (strptime s) fmts of [] \<Rightarrow> None | t # _ \<Rightarrow> Some t)"

definition formats :: "string list" where
  "formats = [''%Y-%m-%d'', ''%d/%m/%Y'', ''%m/%d/%Y'', ''%d-%m-%Y'']"

text \<open>
  \<^verbatim>\<open>str()\<close> of a datetime always carries a time of day, which no date-only format
  reads, so a datetime goes straight to the \<^verbatim>\<open>isinstance(value, datetime)\<close> branch; a
  naive one is tagged with the reference zone, which leaves the wall-clock reading as it
  is. \<^verbatim>\<open>NaT\<close> prints as \<^verbatim>\<open>"NaT"\<close>, is equal to nothing, and is an instance of
  \<^verbatim>\<open>datetime\<close> (its class derives from it) without a \<^verbatim>\<open>tzinfo\<close>: it reaches
  \<^verbatim>\<open>IST.localize\<close>, which rejects it with \<^verbatim>\<open>ValueError\<close> outside any
  \<^verbatim>\<open>try\<close>.
\<close>

definition to_dt :: "(string \<Rightarrow> datetime option) \<Rightarrow> pyval \<Rightarrow> error + datetime option" where
  "to_dt fb v =
     (case v of
        PNone \<Rightarrow> Inr None
      | PDatetime t \<Rightarrow> Inr (Some t)
      | PNaT \<Rightarrow> (case first_format (strip ''NaT'') formats of
                   Some t \<Rightarrow> Inr (Some t) | None \<Rightarrow> Inl ValueError)
      | PStr s \<Rightarrow>
          if s = '''' \<or> s = ''null'' \<or> s = ''NaT'' then Inr None
          else (case first_format (strip s) formats of
                  Some t \<Rightarrow> Inr (Some t) | None \<Rightarrow> Inr (fb (strip s)))
      | POther s \<Rightarrow>
          (case first_format (strip s) formats of
             Some t \<Rightarrow> Inr (Some t) | None \<Rightarrow> Inr (fb (strip s))))"

subsection \<open>The table\<close>

text \<open>
  One row of \<^verbatim>\<open>certificates\<close>. The server-side timestamps \<^verbatim>\<open>created_at\<close> and
  \<^verbatim>\<open>updated_at\<close> are read by no function of the module and are left out. The
  uniqueness constraint \<^verbatim>\<open>uq_cert_train_dept_to\<close> is \<open>uq_ok\<close>.
\<close>

record certificate =
  cert_id :: nat
  trainset_id :: string
  dept :: string
  status :: "string option"
  valid_from :: "datetime option"
  valid_to :: datetime
  source :: "string option"

type_synonym table = "certificate list"

definition pair_of :: "certificate \<Rightarrow> string \<times> string" where
  "pair_of c = (trainset_id c, dept c)"

definition uq_key :: "certificate \<Rightarrow> string \<times> string \<times> datetime" where
  "uq_key c = (trainset_id c, dept c, valid_to c)"

definition uq_ok :: "table \<Rightarrow> bool" where
  "uq_ok db = distinct (map uq_key db)"

definition VALID_MAP :: "(string \<times> string) list" where
  "VALID_MAP = [(''valid'', ''valid''), (''active'', ''valid''), (''ok'', ''valid''),
                (''cleared'', ''valid''), (''1'', ''valid''), (''true'', ''valid''), (''v'', ''valid'')]"

definition valid_status_clause :: "string option \<Rightarrow> bool" where
  "valid_status_clause st = (case st of None \<Rightarrow> True | Some s \<Rightarrow> map_of VALID_MAP (lower s) \<noteq> None)"

subsection \<open>The latest record of each (trainset, department)\<close>

text \<open>
  The subquery groups by \<^verbatim>\<open>(trainset_id, dept)\<close> and takes \<^verbatim>\<open>max(valid_to)\<close>; the
  query joins the table with it on the three columns.
\<close>

fun max_valid_to :: "certificate list \<Rightarrow> datetime option" where
  "max_valid_to [] = None"
| "max_valid_to (c # cs) =
     (case max_valid_to cs of None \<Rightarrow> Some (valid_to c) | Some m \<Rightarrow> Some (dt_max (valid_to c) m))"

definition subq :: "table \<Rightarrow> (string \<times> string \<times> datetime option) list" where
  "subq db = map (\<lambda>(t, d). (t, d, max_valid_to [c \<leftarrow> db. trainset_id c = t \<and> dept c = d]))
                 (remdups (map pair_of db))"

definition latest :: "table \<Rightarrow> certificate list" where
  "latest db = [c. c \<leftarrow> db, g \<leftarrow> subq db,
                  trainset_id c = fst g \<and> dept c = fst (snd g) \<and> Some (valid_to c) = snd (snd g)]"

subsection \<open>Rendering dates\<close>

definition digit_char :: "nat \<Rightarrow> char" where
  "digit_char n = char_of (48 + n mod 10)"

fun digits :: "nat \<Rightarrow> string" where
  "digits n = (if n < 10 then [digit_char n] else digits (n div 10) @ [digit_char n])"

definition pad :: "nat \<Rightarrow> nat \<Rightarrow> string" where
  "pad w n = replicate (w - length (digits n)) (CHR ''0'') @ digits n"

text \<open>\<^verbatim>\<open>strftime("%d/%m/%Y")\<close>, with the year on four digits as the library documents it.\<close>

definition strftime_dmy :: "datetime \<Rightarrow> string" where
  "strftime_dmy t = pad 2 (day t) @ ''/'' @ pad 2 (month t) @ ''/'' @ pad 4 (year t)"


subsection \<open>\<^verbatim>\<open>expiring_within\<close> and \<^verbatim>\<open>total_active\<close>\<close>

text \<open>
  Both are modelled without the optional upsert that precedes the query (\<^verbatim>\<open>path\<close> and
  \<^verbatim>\<open>df\<close> left at \<^verbatim>\<open>None\<close>).
\<close>

record expiry_row =
  train_id :: string
  department :: string
  expiry_date :: string
  days_to_expiry :: int

definition valid_gate :: "datetime \<Rightarrow> string option \<Rightarrow> datetime \<Rightarrow> bool" where
  "valid_gate now st v = (valid_status_clause st \<or> (st = None \<and> dt_le now v))"

definition delta_days :: "datetime \<Rightarrow> datetime \<Rightarrow> int" where
  "delta_days now v = date_ordinal v - date_ordinal now"

definition result_row :: "datetime \<Rightarrow> certificate \<Rightarrow> datetime \<Rightarrow> expiry_row" where
  "result_row now c v =
     \<lparr>train_id = trainset_id c, department = dept c, expiry_date = strftime_dmy v,
      days_to_expiry = delta_days now v\<rparr>"

fun expiring_loop ::
  "(string \<Rightarrow> datetime option) \<Rightarrow> int \<Rightarrow> datetime \<Rightarrow> certificate list \<Rightarrow> expiry_row list
   \<Rightarrow> error + expiry_row list" where
  "expiring_loop fb days now [] results = Inr results"
| "expiring_loop fb days now (c # cs) results =
     (case to_dt fb (PDatetime (valid_to c)) of
        Inl e \<Rightarrow> Inl e
      | Inr None \<Rightarrow> expiring_loop fb days now cs results
      | Inr (Some v) \<Rightarrow>
          if \<not> valid_gate now (status c) v then expiring_loop fb days now cs results
          else if 0 \<le> delta_days now v \<and> delta_days now v \<le> days
          then expiring_loop fb days now cs (results @ [result_row now c v])
          else expiring_loop fb days now cs results)"

definition expiring_within ::
  "(string \<Rightarrow> datetime option) \<Rightarrow> int \<Rightarrow> datetime \<Rightarrow> table \<Rightarrow> error + expiry_row list" where
  "expiring_within fb days now db =
     (case expiring_loop fb days now (latest db) [] of
        Inl e \<Rightarrow> Inl e
      | Inr results \<Rightarrow>
          Inr (sort_key (\<lambda>r. (days_to_expiry r, train_id r, department r)) results))"

fun active_loop ::
  "(string \<Rightarrow> datetime option) \<Rightarrow> datetime \<Rightarrow> certificate list \<Rightarrow> nat \<Rightarrow> error + nat" where
  "active_loop fb now [] cnt = Inr cnt"
| "active_loop fb now (c # cs) cnt =
     (case to_dt fb (PDatetime (valid_to c)) of
        Inl e \<Rightarrow> Inl e
      | Inr None \<Rightarrow> active_loop fb now cs cnt
      | Inr (Some vt) \<Rightarrow>
          if (valid_status_clause (status c) \<or> status c = None) \<and> dt_le now vt
          then active_loop fb now cs (cnt + 1)
          else active_loop fb now cs cnt)"

definition total_active :: "(string \<Rightarrow> datetime option) \<Rightarrow> datetime \<Rightarrow> table \<Rightarrow> error + nat" where
  "total_active fb now db = active_loop fb now (latest db) 0"

subsection \<open>\<^verbatim>\<open>list_certificates\<close>\<close>







subsection \<open>Department codes\<close>

definition dept_norm :: "string \<Rightarrow> string" where
  "dept_norm x0 =
     (if x0 = '''' then ''''
      else let x = upper x0 in
        if startswith x ''ROLLING'' then ''RS''
        else if startswith x ''SIG'' \<or> startswith x ''SIGNAL'' then ''SIG''
        else if startswith x ''TEL'' \<or> startswith x ''TELE'' then ''TEL''
        else if x \<in> {''RS'', ''SIG'', ''TEL''} then x
        else take 8 x)"

subsection \<open>Writing to the table\<close>

text \<open>
  A new row gets the next identifier. The database refuses, with
  \<^verbatim>\<open>IntegrityError\<close>, a commit that would leave two rows with the same
  \<^verbatim>\<open>(trainset_id, dept, valid_to)\<close>.
\<close>

definition next_id :: "table \<Rightarrow> nat" where
  "next_id db = fold max (map cert_id db) 0 + 1"

definition key_exists :: "table \<Rightarrow> certificate \<Rightarrow> bool" where
  "key_exists db c = list_ex (\<lambda>x. uq_key x = uq_key c) db"

definition insert_row :: "table \<Rightarrow> certificate \<Rightarrow> error + table" where
  "insert_row db c = (if key_exists db c then Inl IntegrityError else Inr (db @ [c]))"

definition db_get :: "table \<Rightarrow> nat \<Rightarrow> certificate option" where
  "db_get db i = find (\<lambda>c. cert_id c = i) db"

definition replace_row :: "table \<Rightarrow> certificate \<Rightarrow> error + table" where
  "replace_row db c =
     (if list_ex (\<lambda>x. cert_id x \<noteq> cert_id c \<and> uq_key x = uq_key c) db then Inl IntegrityError
      else Inr (map (\<lambda>x. if cert_id x = cert_id c then c else x) db))"

subsection \<open>\<^verbatim>\<open>add_certificate\<close>\<close>

text \<open>
  The dictionary of a request: a text field is absent or a string, a date field is any
  value (\<open>PNone\<close> when absent).
\<close>

record add_record =
  a_trainset_id :: "string option"
  a_dept :: "string option"
  a_status :: "string option"
  a_valid_from :: pyval
  a_valid_to :: pyval
  a_source :: "string option"

datatype add_result = AddId nat | AddError string

definition or_else :: "string option \<Rightarrow> string \<Rightarrow> string" where
  "or_else x d = (case x of None \<Rightarrow> d | Some s \<Rightarrow> if s = '''' then d else s)"

definition required_msg :: string where
  "required_msg =
     ''trainset_id, dept, valid_to are required. Use YYYY-MM-DD / DD/MM/YYYY / MM/DD/YYYY.''"

definition add_certificate ::
  "(string \<Rightarrow> datetime option) \<Rightarrow> add_record \<Rightarrow> table \<Rightarrow> error + table \<times> add_result" where
  "add_certificate fb r db =
     (let t = strip (or_else (a_trainset_id r) '''');
          d = dept_norm (or_else (a_dept r) '''')
      in case to_dt fb (a_valid_to r) of
           Inl e \<Rightarrow> Inl e
         | Inr vt \<Rightarrow>
             (case vt of
                None \<Rightarrow> Inr (db, AddError required_msg)
              | Some v \<Rightarrow>
                  if t = '''' \<or> d = '''' then Inr (db, AddError required_msg)
                  else (case to_dt fb (a_valid_from r) of
                          Inl e \<Rightarrow> Inl e
                        | Inr vf \<Rightarrow>
                            let c = \<lparr>cert_id = next_id db, trainset_id = t, dept = d,
                                     status = (if or_else (a_status r) '''' = '''' then None
                                               else Some (lower (or_else (a_status r) ''''))),
                                     valid_from = vf, valid_to = v,
                                     source = Some (or_else (a_source r) ''api'')\<rparr>
                            in (case insert_row db c of
                                  Inl e \<Rightarrow> Inl e
                                | Inr db' \<Rightarrow> Inr (db', AddId (cert_id c))))))"

subsection \<open>\<^verbatim>\<open>update_certificate\<close> and \<^verbatim>\<open>delete_certificate\<close>\<close>

text \<open>
  A field of the patch is \<open>None\<close> when its key is absent. The assignments go to the
  session's object \<open>c\<close>; only \<^verbatim>\<open>db.commit()\<close> writes it to the table, and a return
  before it leaves the table as it was.
\<close>

record patch =
  p_trainset_id :: "string option"
  p_dept :: "string option"
  p_status :: "string option"
  p_valid_from :: "pyval option"
  p_valid_to :: "pyval option"

record update_result =
  updated :: nat
  update_error :: "string option"

definition patch_text :: "patch \<Rightarrow> certificate \<Rightarrow> certificate" where
  "patch_text p c0 =
     (let c1 = (case p_trainset_id p of None \<Rightarrow> c0 | Some s \<Rightarrow> c0\<lparr>trainset_id := strip s\<rparr>);
          c2 = (case p_dept p of None \<Rightarrow> c1 | Some s \<Rightarrow> c1\<lparr>dept := dept_norm s\<rparr>)
      in (case p_status p of
            None \<Rightarrow> c2
          | Some s \<Rightarrow> c2\<lparr>status := (if lower s = [] then None else Some (lower s))\<rparr>))"

definition patch_valid_from ::
  "(string \<Rightarrow> datetime option) \<Rightarrow> patch \<Rightarrow> certificate \<Rightarrow> error + certificate" where
  "patch_valid_from fb p c =
     (case p_valid_from p of
        None \<Rightarrow> Inr c
      | Some w \<Rightarrow> map_sum id (\<lambda>vf. c\<lparr>valid_from := vf\<rparr>) (to_dt fb w))"

text \<open>\<open>Inr None\<close> is the return on a \<^verbatim>\<open>valid_to\<close> that is not a date.\<close>

definition patch_valid_to ::
  "(string \<Rightarrow> datetime option) \<Rightarrow> patch \<Rightarrow> certificate \<Rightarrow> error + certificate option" where
  "patch_valid_to fb p c =
     (case p_valid_to p of
        None \<Rightarrow> Inr (Some c)
      | Some w \<Rightarrow> map_sum id (map_option (\<lambda>vt. c\<lparr>valid_to := vt\<rparr>)) (to_dt fb w))"

definition commit_update :: "table \<Rightarrow> certificate \<Rightarrow> error + table \<times> update_result" where
  "commit_update db c =
     map_sum id (\<lambda>db'. (db', \<lparr>updated = 1, update_error = None\<rparr>)) (replace_row db c)"

definition update_certificate ::
  "(string \<Rightarrow> datetime option) \<Rightarrow> nat \<Rightarrow> patch \<Rightarrow> table \<Rightarrow> error + table \<times> update_result" where
  "update_certificate fb i p db =
     (case db_get db i of
        None \<Rightarrow> Inr (db, \<lparr>updated = 0, update_error = Some ''not found''\<rparr>)
      | Some c0 \<Rightarrow>
          (case patch_valid_from fb p (patch_text p c0) of
             Inl e \<Rightarrow> Inl e
           | Inr c4 \<Rightarrow>
               (case patch_valid_to fb p c4 of
                  Inl e \<Rightarrow> Inl e
                | Inr vt \<Rightarrow>
                    (case vt of
                       None \<Rightarrow>
                         Inr (db, \<lparr>updated = 0, update_error = Some ''valid_to must be a valid date''\<rparr>)
                     | Some c5 \<Rightarrow> commit_update db c5))))"

record delete_result =
  deleted :: nat
  delete_error :: "string option"

definition delete_certificate :: "nat \<Rightarrow> table \<Rightarrow> table \<times> delete_result" where
  "delete_certificate i db =
     (case db_get db i of
        None \<Rightarrow> (db, \<lparr>deleted = 0, delete_error = Some ''not found''\<rparr>)
      | Some c \<Rightarrow> ([x \<leftarrow> db. cert_id x \<noteq> i], \<lparr>deleted = 1, delete_error = None\<rparr>))"

subsection \<open>Parsing a column of dates: \<^verbatim>\<open>_parse_date_series\<close>\<close>

text \<open>
  \<^verbatim>\<open>pandas.to_datetime(s, errors="coerce", ...)\<close> turns a column of cells into a
  column of timestamps, with \<^verbatim>\<open>NaT\<close> where a cell does not parse. It is the
  argument \<open>td\<close>, called with the keywords of the source: none (the permissive parse),
  \<^verbatim>\<open>dayfirst=True\<close>, or an explicit \<^verbatim>\<open>format\<close>.
\<close>

datatype stamp = Timestamp datetime | NaT

datatype kw = Coerce | CoerceDayfirst | Format string

definition kws :: "kw list" where
  "kws = [Coerce, CoerceDayfirst, Format ''%d-%m-%Y'', Format ''%Y-%m-%d'',
          Format ''%d/%m/%Y'', Format ''%m/%d/%Y'']"

definition notna_any :: "stamp list \<Rightarrow> bool" where
  "notna_any out = list_ex (\<lambda>x. x \<noteq> NaT) out"

fun first_parse ::
  "(kw \<Rightarrow> string list \<Rightarrow> stamp list) \<Rightarrow> kw list \<Rightarrow> string list \<Rightarrow> stamp list option" where
  "first_parse td [] s = None"
| "first_parse td (k # ks) s = (if notna_any (td k s) then Some (td k s) else first_parse td ks s)"

definition parse_date_series :: "(kw \<Rightarrow> string list \<Rightarrow> stamp list) \<Rightarrow> string list \<Rightarrow> stamp list" where
  "parse_date_series td s = (case first_parse td kws s of Some out \<Rightarrow> out | None \<Rightarrow> td Coerce s)"

subsection \<open>\<^verbatim>\<open>upsert_from_csv\<close>\<close>

text \<open>
  The file as the function sees it after reading it and resolving its columns: missing,
  without the required columns, or a frame. A frame says whether it has a status and a
  valid-from column and holds its rows; a cell is given by its \<^verbatim>\<open>str()\<close>, so an empty
  cell is \<^verbatim>\<open>nan\<close>. A parsed date column has one entry for each row.
\<close>

record csv_row =
  r_train :: string
  r_dept :: string
  r_stat :: string
  r_vfrom :: string
  r_vto :: string

record frame =
  has_stat :: bool
  has_vfrom :: bool
  csv_rows :: "csv_row list"

datatype csv_source = FileMissing string | ColumnsMissing | Frame frame

record upsert_result =
  imported :: nat
  skipped :: nat
  upsert_error :: "string option"
  detail :: "string option"

definition norm_stat :: "string \<Rightarrow> string" where
  "norm_stat s = (case map_of VALID_MAP (lower s) of Some v \<Rightarrow> v | None \<Rightarrow> s)"

definition py_of_stamp :: "stamp \<Rightarrow> pyval" where
  "py_of_stamp x = (case x of Timestamp t \<Rightarrow> PDatetime t | NaT \<Rightarrow> PNaT)"

text \<open>
  One row of the loop: the row with the normalised department and status, and its two
  parsed dates. The session flushes its pending rows before each \<^verbatim>\<open>select\<close>, so the
  existence check sees the rows added earlier in the same file; they are committed
  together at the end, and not at all when the loop raises.
\<close>

type_synonym loop_row = "csv_row \<times> stamp \<times> stamp"

definition row_cert :: "bool \<Rightarrow> table \<Rightarrow> csv_row \<Rightarrow> datetime option \<Rightarrow> datetime \<Rightarrow> certificate" where
  "row_cert hs db r f v =
     \<lparr>cert_id = next_id db, trainset_id = strip (r_train r), dept = strip (r_dept r),
      status = (if hs then Some (strip (lower (r_stat r))) else None),
      valid_from = f, valid_to = v, source = Some ''csv-import''\<rparr>"

fun upsert_loop ::
  "(string \<Rightarrow> datetime option) \<Rightarrow> bool \<Rightarrow> bool \<Rightarrow> loop_row list \<Rightarrow> table \<Rightarrow> nat \<Rightarrow> nat
   \<Rightarrow> error + table \<times> nat \<times> nat" where
  "upsert_loop fb hs hf [] db imp skp = Inr (db, imp, skp)"
| "upsert_loop fb hs hf ((r, vf, vt) # rest) db imp skp =
     (case to_dt fb (py_of_stamp vt) of
        Inl e \<Rightarrow> Inl e
      | Inr None \<Rightarrow> upsert_loop fb hs hf rest db imp (skp + 1)
      | Inr (Some v) \<Rightarrow>
          (case (if hf then to_dt fb (py_of_stamp vf) else Inr None) of
             Inl e \<Rightarrow> Inl e
           | Inr f \<Rightarrow>
               if key_exists db (row_cert hs db r f v)
               then upsert_loop fb hs hf rest db imp (skp + 1)
               else upsert_loop fb hs hf rest (db @ [row_cert hs db r f v]) (imp + 1) skp))"

definition loop_rows :: "(kw \<Rightarrow> string list \<Rightarrow> stamp list) \<Rightarrow> frame \<Rightarrow> loop_row list" where
  "loop_rows td f =
     (let rs = csv_rows f;
          vfs = (if has_vfrom f then parse_date_series td (map r_vfrom rs) else map (\<lambda>_. NaT) rs);
          vts = parse_date_series td (map r_vto rs);
          rs' = map (\<lambda>r. r\<lparr>r_stat := (if has_stat f then norm_stat (r_stat r) else r_stat r),
                            r_dept := dept_norm (r_dept r)\<rparr>) rs
      in zip rs' (zip vfs vts))"

definition upsert_from_csv ::
  "(kw \<Rightarrow> string list \<Rightarrow> stamp list) \<Rightarrow> (string \<Rightarrow> datetime option) \<Rightarrow> csv_source \<Rightarrow> table
   \<Rightarrow> error + table \<times> upsert_result" where
  "upsert_from_csv td fb src db =
     (case src of
        FileMissing path \<Rightarrow>
          Inr (db, \<lparr>imported = 0, skipped = 0,
                    upsert_error = Some (''file not found: '' @ path), detail = None\<rparr>)
      | ColumnsMissing \<Rightarrow>
          Inr (db, \<lparr>imported = 0, skipped = 0,
                    upsert_error = Some ''required columns missing'', detail = None\<rparr>)
      | Frame f \<Rightarrow>
          if csv_rows f = [] then
            Inr (db, \<lparr>imported = 0, skipped = 0, upsert_error = Some ''csv empty'', detail = None\<rparr>)
          else (case upsert_loop fb (has_stat f) (has_vfrom f) (loop_rows td f) db 0 0 of
                  Inl e \<Rightarrow> Inl e
                | Inr (db', imp, skp) \<Rightarrow>
                    Inr (db', \<lparr>imported = imp, skipped = skp, upsert_error = None,
                              detail = Some ''ok''\<rparr>)))"

subsection \<open>Notions used in the statements\<close>

text \<open>A heuristic parser that reads nothing, for the examples.\<close>

definition no_fallback :: "string \<Rightarrow> datetime option" where
  "no_fallback s = None"

text \<open>A row is the latest of its pair: no row of the same pair has a later \<^verbatim>\<open>valid_to\<close>.\<close>

definition is_latest :: "table \<Rightarrow> certificate \<Rightarrow> bool" where
  "is_latest db c = list_all (\<lambda>x. pair_of x = pair_of c \<longrightarrow> dt_le (valid_to x) (valid_to c)) db"

text \<open>The day window of \<^verbatim>\<open>expiring_within\<close>, and whether the report has the row of a record.\<close>

definition window :: "int \<Rightarrow> datetime \<Rightarrow> certificate \<Rightarrow> bool" where
  "window n now c = (0 \<le> delta_days now (valid_to c) \<and> delta_days now (valid_to c) \<le> n)"

definition reported ::
  "(string \<Rightarrow> datetime option) \<Rightarrow> int \<Rightarrow> datetime \<Rightarrow> table \<Rightarrow> certificate \<Rightarrow> bool" where
  "reported fb n now db c =
     (case expiring_within fb n now db of
        Inl e \<Rightarrow> False
      | Inr rs \<Rightarrow> result_row now c (valid_to c) \<in> set rs)"

text \<open>The rows of a file whose expiry normalises to an instant.\<close>

definition parsed_rows ::
  "(kw \<Rightarrow> string list \<Rightarrow> stamp list) \<Rightarrow> (string \<Rightarrow> datetime option) \<Rightarrow> csv_source \<Rightarrow> nat" where
  "parsed_rows td fb src =
     (case src of
        Frame f \<Rightarrow>
          length [x \<leftarrow> loop_rows td f.
                  case to_dt fb (py_of_stamp (snd (snd x))) of Inr (Some v) \<Rightarrow> True | _ \<Rightarrow> False]
      | _ \<Rightarrow> 0)"

text \<open>
  A stand-in for \<^verbatim>\<open>pandas.to_datetime\<close> in the examples: an explicit format is read
  as \<open>strptime\<close> reads it, the permissive parse reads a slashed date month first (the
  library's default), and with \<^verbatim>\<open>dayfirst=True\<close> day first.
\<close>

definition example_to_datetime :: "kw \<Rightarrow> string list \<Rightarrow> stamp list" where
  "example_to_datetime k s =
     map (\<lambda>c. case strptime c (case k of Coerce \<Rightarrow> ''%m/%d/%Y''
                                        | CoerceDayfirst \<Rightarrow> ''%d/%m/%Y''
                                        | Format f \<Rightarrow> f) of
                 Some t \<Rightarrow> Timestamp t
               | None \<Rightarrow> NaT) s"

section \<open>Properties\<close>

subsection \<open>The order on datetimes\<close>

lemma to_dt_datetime: "to_dt fb (PDatetime t) = Inr (Some t)"
  by (simp add: to_dt_def)

lemma dt_le_refl: "dt_le a a"
  by (simp add: dt_le_def)

lemma dt_le_trans: "dt_le a b \<Longrightarrow> dt_le b c \<Longrightarrow> dt_le a c"
  unfolding dt_le_def by (rule order_trans)

lemma dt_le_total: "dt_le a b \<or> dt_le b a"
  unfolding dt_le_def by (rule linear)

lemma dt_key_inj: "dt_key a = dt_key b \<Longrightarrow> a = b"
  by (cases a, cases b) (simp add: dt_key_def)

lemma dt_le_antisym: "dt_le a b \<Longrightarrow> dt_le b a \<Longrightarrow> a = b"
  unfolding dt_le_def by (rule dt_key_inj) (rule order_antisym)

subsection \<open>The latest-record query is a filter of the table\<close>

lemma max_valid_to_Nil: "max_valid_to cs = None \<longleftrightarrow> cs = []"
  by (induction cs) (auto split: option.splits)

lemma max_valid_to_upper: "max_valid_to cs = Some m \<Longrightarrow> x \<in> set cs \<Longrightarrow> dt_le (valid_to x) m"
proof (induction cs arbitrary: m)
  case Nil
  then show ?case by simp
next
  case (Cons c cs)
  show ?case
  proof (cases "max_valid_to cs")
    case None
    then have "cs = []" by (simp add: max_valid_to_Nil)
    with Cons.prems None show ?thesis by (simp add: dt_le_refl)
  next
    case (Some m')
    with Cons.prems have m: "m = dt_max (valid_to c) m'" by simp
    have up: "dt_le (valid_to c) m" "dt_le m' m"
      using dt_le_total [of "valid_to c" m'] by (auto simp: m dt_max_def dt_le_refl)
    from Cons.prems(2) consider "x = c" | "x \<in> set cs" by auto
    then show ?thesis
    proof cases
      case 1
      with up show ?thesis by simp
    next
      case 2
      then have "dt_le (valid_to x) m'" using Cons.IH Some by blast
      with up show ?thesis by (blast intro: dt_le_trans)
    qed
  qed
qed

lemma max_valid_to_mem: "max_valid_to cs = Some m \<Longrightarrow> m \<in> valid_to ` set cs"
proof (induction cs arbitrary: m)
  case Nil
  then show ?case by simp
next
  case (Cons c cs)
  then show ?case
    by (cases "max_valid_to cs") (auto simp: dt_max_def split: if_splits)
qed

lemma max_valid_to_iff:
  assumes "c \<in> set cs"
  shows "Some (valid_to c) = max_valid_to cs \<longleftrightarrow> (\<forall>x\<in>set cs. dt_le (valid_to x) (valid_to c))"
proof
  assume "Some (valid_to c) = max_valid_to cs"
  then show "\<forall>x\<in>set cs. dt_le (valid_to x) (valid_to c)"
    using max_valid_to_upper [of cs "valid_to c"] by auto
next
  assume top: "\<forall>x\<in>set cs. dt_le (valid_to x) (valid_to c)"
  from assms obtain m where m: "max_valid_to cs = Some m"
    using max_valid_to_Nil [of cs] by (cases "max_valid_to cs") auto
  from max_valid_to_mem [OF m] obtain y where y: "y \<in> set cs" "m = valid_to y" by auto
  have "dt_le (valid_to c) m" using max_valid_to_upper [OF m assms] .
  moreover have "dt_le m (valid_to c)" using top y by simp
  ultimately have "valid_to c = m" by (rule dt_le_antisym)
  with m show "Some (valid_to c) = max_valid_to cs" by simp
qed

lemma join_one:
  "distinct ks \<Longrightarrow> k \<in> set ks \<Longrightarrow> concat (map (\<lambda>k'. if k' = k then f k' else []) ks) = f k"
proof (induction ks)
  case Nil
  then show ?case by simp
next
  case (Cons a ks)
  show ?case
  proof (cases "a = k")
    case True
    with Cons.prems have "k \<notin> set ks" by simp
    then have "concat (map (\<lambda>k'. if k' = k then f k' else []) ks) = []"
      by (induction ks) auto
    with True show ?thesis by simp
  next
    case False
    with Cons show ?thesis by simp
  qed
qed

lemma concat_if_filter: "concat (map (\<lambda>c. if P c then [c] else []) xs) = filter P xs"
  by (induction xs) auto

lemma is_latest_iff:
  "is_latest db c \<longleftrightarrow> (\<forall>x\<in>set db. pair_of x = pair_of c \<longrightarrow> dt_le (valid_to x) (valid_to c))"
  by (simp add: is_latest_def list_all_iff)

lemma latest_filter: "latest db = filter (is_latest db) db"
proof -
  have inner: "concat (map (\<lambda>g. if trainset_id c = fst g \<and> dept c = fst (snd g)
                                    \<and> Some (valid_to c) = snd (snd g) then [c] else []) (subq db))
        = (if is_latest db c then [c] else [])" if c: "c \<in> set db" for c
  proof -
    let ?grp = "\<lambda>k. [x \<leftarrow> db. trainset_id x = fst k \<and> dept x = snd k]"
    let ?f = "\<lambda>k. if Some (valid_to c) = max_valid_to (?grp k) then [c] else []"
    have "concat (map (\<lambda>g. if trainset_id c = fst g \<and> dept c = fst (snd g)
                               \<and> Some (valid_to c) = snd (snd g) then [c] else []) (subq db))
        = concat (map (\<lambda>k. if k = pair_of c then ?f k else []) (remdups (map pair_of db)))"
      unfolding subq_def map_map
      by (rule arg_cong [where f = concat], rule map_cong) (auto simp: pair_of_def)
    also have "\<dots> = ?f (pair_of c)"
      using c by (intro join_one) auto
    also have "\<dots> = (if is_latest db c then [c] else [])"
    proof -
      have "c \<in> set (?grp (pair_of c))" using c by (simp add: pair_of_def)
      from max_valid_to_iff [OF this]
      have "Some (valid_to c) = max_valid_to (?grp (pair_of c)) \<longleftrightarrow> is_latest db c"
        by (auto simp: is_latest_iff pair_of_def prod_eq_iff)
      then show ?thesis by simp
    qed
    finally show ?thesis .
  qed
  have "latest db = concat (map (\<lambda>c. if is_latest db c then [c] else []) db)"
    unfolding latest_def
    by (rule arg_cong [where f = concat], rule map_cong) (simp_all add: inner)
  also have "\<dots> = filter (is_latest db) db"
    by (rule concat_if_filter)
  finally show ?thesis .
qed

lemma filter_eq_singleton:
  "distinct xs \<Longrightarrow> r \<in> set xs \<Longrightarrow> (\<And>x. x \<in> set xs \<Longrightarrow> P x \<longleftrightarrow> x = r) \<Longrightarrow> filter P xs = [r]"
proof (induction xs)
  case Nil
  then show ?case by simp
next
  case (Cons a xs)
  show ?case
  proof (cases "a = r")
    case True
    with Cons.prems have "r \<notin> set xs" by simp
    with Cons.prems(3) have "\<forall>x\<in>set xs. \<not> P x" by auto
    then have "filter P xs = []" by (simp add: filter_empty_conv)
    moreover have "P a" using Cons.prems(3) [of a] True by simp
    ultimately show ?thesis using True by simp
  next
    case False
    with Cons.prems have "r \<in> set xs" "distinct xs" "\<not> P a" by auto
    with Cons show ?thesis by simp
  qed
qed

lemma uq_latest_unique:
  assumes "uq_ok db" "a \<in> set db" "b \<in> set db" "pair_of a = pair_of b"
    "is_latest db a" "is_latest db b"
  shows "a = b"
proof -
  have "dt_le (valid_to a) (valid_to b)" "dt_le (valid_to b) (valid_to a)"
    using assms by (auto simp: is_latest_iff)
  then have "valid_to a = valid_to b" by (rule dt_le_antisym)
  with assms(4) have "uq_key a = uq_key b" by (simp add: uq_key_def pair_of_def)
  moreover have "inj_on uq_key (set db)" using assms(1) by (simp add: uq_ok_def distinct_map)
  ultimately show ?thesis using assms(2,3) by (auto dest: inj_onD)
qed

lemma group_has_max:
  assumes "r0 \<in> set db"
  shows "\<exists>r\<in>set db. pair_of r = pair_of r0 \<and> is_latest db r"
proof -
  let ?g = "[x \<leftarrow> db. pair_of x = pair_of r0]"
  have ne: "r0 \<in> set ?g" using assms by simp
  then have "?g \<noteq> []" by (metis empty_iff list.set(1))
  then obtain m where m: "max_valid_to ?g = Some m"
    using max_valid_to_Nil [of ?g] by (cases "max_valid_to ?g") blast+
  from max_valid_to_mem [OF m] obtain r where r: "r \<in> set ?g" "m = valid_to r" by auto
  have "is_latest db r"
    unfolding is_latest_iff using max_valid_to_upper [OF m] r by auto
  with r show ?thesis by auto
qed

subsection \<open>The loops of the two reports\<close>

lemma valid_status_clause_iff:
  "valid_status_clause st \<longleftrightarrow> st = None \<or> (\<exists>s. st = Some s \<and> lower s \<in> fst ` set VALID_MAP)"
  by (cases st) (simp_all add: valid_status_clause_def map_of_eq_None_iff)

lemma valid_gate_status: "valid_gate now st v = valid_status_clause st"
  by (cases st) (simp_all add: valid_gate_def valid_status_clause_def)

lemma expiring_loop_eq:
  "expiring_loop fb n now cs acc =
     Inr (acc @ map (\<lambda>c. result_row now c (valid_to c))
            [c \<leftarrow> cs. valid_gate now (status c) (valid_to c) \<and> window n now c])"
  by (induction cs arbitrary: acc) (simp_all add: to_dt_datetime window_def)

lemma active_loop_eq:
  "active_loop fb now cs k =
     Inr (k + length [c \<leftarrow> cs. valid_status_clause (status c) \<and> dt_le now (valid_to c)])"
proof (induction cs arbitrary: k)
  case Nil
  then show ?case by simp
next
  case (Cons c cs)
  have "(valid_status_clause (status c) \<or> status c = None) = valid_status_clause (status c)"
    by (auto simp: valid_status_clause_def)
  then show ?case by (simp add: to_dt_datetime Cons.IH)
qed

lemma expiring_within_eq:
  "expiring_within fb n now db =
     Inr (sort_key (\<lambda>r. (days_to_expiry r, train_id r, department r))
            (map (\<lambda>c. result_row now c (valid_to c))
               [c \<leftarrow> latest db. valid_gate now (status c) (valid_to c) \<and> window n now c]))"
  by (simp add: expiring_within_def expiring_loop_eq)

lemma reported_iff:
  "reported fb n now db c \<longleftrightarrow>
     (\<exists>x\<in>set (latest db). valid_gate now (status x) (valid_to x) \<and> window n now x
        \<and> result_row now x (valid_to x) = result_row now c (valid_to c))"
  by (simp add: reported_def expiring_within_eq image_iff) (metis (lifting))

lemmas eval_dt = dt_le_def dt_key_def delta_days_def date_ordinal_def days_before_year_def
  days_before_month_def is_leap_def

subsection \<open>Claims on the reports\<close>

text \<open>
  C5. Under the uniqueness constraint of the table, for every pair (trainset, department)
  that has a row, the latest-record query returns for that pair exactly one row; it is a
  row of the pair whose \<^verbatim>\<open>valid_to\<close> no row of the pair exceeds, and it is the same
  for every order in which the rows could have been inserted.
\<close>

theorem latest_selects_max_valid_to:
  assumes "uq_ok db" and "r0 \<in> set db" and "pair_of r0 = p"
  shows "\<exists>r. r \<in> set db \<and> pair_of r = p
           \<and> (\<forall>x\<in>set db. pair_of x = p \<longrightarrow> dt_le (valid_to x) (valid_to r))
           \<and> (\<forall>db'. mset db' = mset db \<longrightarrow> [c \<leftarrow> latest db'. pair_of c = p] = [r])"
proof -
  from group_has_max [OF assms(2)] assms(3)
  obtain r where r: "r \<in> set db" "pair_of r = p" "is_latest db r" by auto
  have perm: "[c \<leftarrow> latest db'. pair_of c = p] = [r]" if eq: "mset db' = mset db" for db'
  proof -
    have s: "set db' = set db" using eq by (rule mset_eq_setD)
    have "mset (map uq_key db') = mset (map uq_key db)" using eq by simp
    then have "distinct (map uq_key db') = distinct (map uq_key db)"
      by (rule mset_eq_imp_distinct_iff)
    with assms(1) have uq: "uq_ok db'" by (simp add: uq_ok_def)
    then have d: "distinct db'" by (auto simp: uq_ok_def distinct_map)
    have l: "is_latest db' = is_latest db" by (simp add: is_latest_iff s fun_eq_iff)
    have "[c \<leftarrow> latest db'. pair_of c = p] = [c \<leftarrow> db'. is_latest db c \<and> pair_of c = p]"
      by (simp add: latest_filter l)
    also have "\<dots> = [r]"
    proof (rule filter_eq_singleton [OF d])
      show "r \<in> set db'" using r s by simp
    next
      fix x assume "x \<in> set db'"
      then have x: "x \<in> set db" using s by simp
      show "(is_latest db x \<and> pair_of x = p) \<longleftrightarrow> x = r"
        using uq_latest_unique [OF assms(1) x r(1)] r by auto
    qed
    finally show ?thesis .
  qed
  from r perm show ?thesis by (auto simp: is_latest_iff)
qed

theorem latest_selects_max_valid_to_witness:
  "uq_ok [\<lparr>cert_id = 1, trainset_id = ''T1'', dept = ''RS'', status = None, valid_from = None,
            valid_to = \<lparr>year = 2099, month = 12, day = 31, tod = 0\<rparr>, source = None\<rparr>,
          \<lparr>cert_id = 2, trainset_id = ''T1'', dept = ''RS'', status = None, valid_from = None,
            valid_to = \<lparr>year = 2020, month = 1, day = 1, tod = 0\<rparr>, source = None\<rparr>]
   \<and> [c \<leftarrow> latest
          [\<lparr>cert_id = 1, trainset_id = ''T1'', dept = ''RS'', status = None, valid_from = None,
            valid_to = \<lparr>year = 2099, month = 12, day = 31, tod = 0\<rparr>, source = None\<rparr>,
           \<lparr>cert_id = 2, trainset_id = ''T1'', dept = ''RS'', status = None, valid_from = None,
            valid_to = \<lparr>year = 2020, month = 1, day = 1, tod = 0\<rparr>, source = None\<rparr>].
        pair_of c = (''T1'', ''RS'')]
     = [\<lparr>cert_id = 1, trainset_id = ''T1'', dept = ''RS'', status = None, valid_from = None,
            valid_to = \<lparr>year = 2099, month = 12, day = 31, tod = 0\<rparr>, source = None\<rparr>]
   \<and> [c \<leftarrow> latest
          [\<lparr>cert_id = 2, trainset_id = ''T1'', dept = ''RS'', status = None, valid_from = None,
            valid_to = \<lparr>year = 2020, month = 1, day = 1, tod = 0\<rparr>, source = None\<rparr>,
           \<lparr>cert_id = 1, trainset_id = ''T1'', dept = ''RS'', status = None, valid_from = None,
            valid_to = \<lparr>year = 2099, month = 12, day = 31, tod = 0\<rparr>, source = None\<rparr>].
        pair_of c = (''T1'', ''RS'')]
     = [\<lparr>cert_id = 1, trainset_id = ''T1'', dept = ''RS'', status = None, valid_from = None,
            valid_to = \<lparr>year = 2099, month = 12, day = 31, tod = 0\<rparr>, source = None\<rparr>]"
proof -
  let ?A = "\<lparr>cert_id = 1, trainset_id = ''T1'', dept = ''RS'', status = None, valid_from = None,
            valid_to = \<lparr>year = 2099, month = 12, day = 31, tod = 0\<rparr>, source = None\<rparr>"
  let ?B = "\<lparr>cert_id = 2, trainset_id = ''T1'', dept = ''RS'', status = None, valid_from = None,
            valid_to = \<lparr>year = 2020, month = 1, day = 1, tod = 0\<rparr>, source = None\<rparr>"
  have uq: "uq_ok [?A, ?B]" by (simp add: uq_ok_def uq_key_def)
  have mem: "?B \<in> set [?A, ?B]" by simp
  have p: "pair_of ?B = (''T1'', ''RS'')" by (simp add: pair_of_def)
  from latest_selects_max_valid_to [OF uq mem p]
  obtain r where r: "r \<in> set [?A, ?B]"
    and top: "\<forall>x\<in>set [?A, ?B]. pair_of x = (''T1'', ''RS'') \<longrightarrow> dt_le (valid_to x) (valid_to r)"
    and perm: "\<forall>db'. mset db' = mset [?A, ?B] \<longrightarrow> [c \<leftarrow> latest db'. pair_of c = (''T1'', ''RS'')] = [r]"
    by blast
  have "dt_le (valid_to ?A) (valid_to r)" using top by (simp add: pair_of_def)
  moreover have "\<not> dt_le (valid_to ?A) (valid_to ?B)" by (simp add: eval_dt)
  ultimately have "r = ?A" using r by auto
  moreover have "mset [?B, ?A] = mset [?A, ?B]" by (simp add: add.commute)
  ultimately show ?thesis using uq perm by blast
qed

text \<open>
  C1, as the code has it. Under the uniqueness constraint, \<^verbatim>\<open>total_active\<close> is the
  number of pairs whose latest row has a status that is absent or, in lower case, in the
  synonym set, and a \<^verbatim>\<open>valid_to\<close> not before now. The date test applies to every
  status, not only to an absent one.
\<close>

theorem total_active_counts_live_pairs:
  assumes "uq_ok db"
  shows "total_active fb now db =
     Inr (card {p. \<exists>r\<in>set db. pair_of r = p
                 \<and> (\<forall>x\<in>set db. pair_of x = p \<longrightarrow> dt_le (valid_to x) (valid_to r))
                 \<and> (status r = None \<or> (\<exists>s. status r = Some s \<and> lower s \<in> fst ` set VALID_MAP))
                 \<and> dt_le now (valid_to r)})"
proof -
  let ?A = "\<lambda>c. valid_status_clause (status c) \<and> dt_le now (valid_to c)"
  let ?xs = "[c \<leftarrow> db. is_latest db c \<and> ?A c]"
  have "inj_on pair_of (set ?xs)"
    using uq_latest_unique [OF assms] by (auto intro!: inj_onI)
  moreover have "distinct ?xs" using assms by (auto simp: uq_ok_def distinct_map)
  ultimately have "distinct (map pair_of ?xs)" by (simp add: distinct_map)
  then have "card (set (map pair_of ?xs)) = length (map pair_of ?xs)" by (rule distinct_card)
  moreover have "set (map pair_of ?xs) =
      {p. \<exists>r\<in>set db. pair_of r = p
            \<and> (\<forall>x\<in>set db. pair_of x = p \<longrightarrow> dt_le (valid_to x) (valid_to r))
            \<and> (status r = None \<or> (\<exists>s. status r = Some s \<and> lower s \<in> fst ` set VALID_MAP))
            \<and> dt_le now (valid_to r)}"
  proof (intro set_eqI iffI)
    fix p assume "p \<in> set (map pair_of ?xs)"
    then obtain c where "c \<in> set db" "is_latest db c" "?A c" "p = pair_of c" by auto
    then show "p \<in> {p. \<exists>r\<in>set db. pair_of r = p
            \<and> (\<forall>x\<in>set db. pair_of x = p \<longrightarrow> dt_le (valid_to x) (valid_to r))
            \<and> (status r = None \<or> (\<exists>s. status r = Some s \<and> lower s \<in> fst ` set VALID_MAP))
            \<and> dt_le now (valid_to r)}"
      unfolding is_latest_iff valid_status_clause_iff by blast
  next
    fix p assume "p \<in> {p. \<exists>r\<in>set db. pair_of r = p
            \<and> (\<forall>x\<in>set db. pair_of x = p \<longrightarrow> dt_le (valid_to x) (valid_to r))
            \<and> (status r = None \<or> (\<exists>s. status r = Some s \<and> lower s \<in> fst ` set VALID_MAP))
            \<and> dt_le now (valid_to r)}"
    then obtain r where "r \<in> set db" "pair_of r = p" "is_latest db r" "?A r"
      unfolding is_latest_iff valid_status_clause_iff by blast
    then have "r \<in> set ?xs" by simp
    with \<open>pair_of r = p\<close> show "p \<in> set (map pair_of ?xs)" by (metis image_eqI set_map)
  qed
  moreover have "total_active fb now db = Inr (length ?xs)"
    by (simp add: total_active_def active_loop_eq latest_filter)
  ultimately show ?thesis by simp
qed

theorem total_active_counts_live_pairs_witness:
  "uq_ok [\<lparr>cert_id = 1, trainset_id = ''T1'', dept = ''RS'', status = Some ''Active'', valid_from = None,
            valid_to = \<lparr>year = 2099, month = 12, day = 31, tod = 0\<rparr>, source = None\<rparr>,
          \<lparr>cert_id = 2, trainset_id = ''T2'', dept = ''SIG'', status = None, valid_from = None,
            valid_to = \<lparr>year = 2020, month = 1, day = 1, tod = 0\<rparr>, source = None\<rparr>]
   \<and> total_active no_fallback \<lparr>year = 2025, month = 3, day = 15, tod = 36000000000\<rparr>
         [\<lparr>cert_id = 1, trainset_id = ''T1'', dept = ''RS'', status = Some ''Active'', valid_from = None,
            valid_to = \<lparr>year = 2099, month = 12, day = 31, tod = 0\<rparr>, source = None\<rparr>,
          \<lparr>cert_id = 2, trainset_id = ''T2'', dept = ''SIG'', status = None, valid_from = None,
            valid_to = \<lparr>year = 2020, month = 1, day = 1, tod = 0\<rparr>, source = None\<rparr>]
       = Inr (card {(''T1'', ''RS'')})"
proof -
  let ?A = "\<lparr>cert_id = 1, trainset_id = ''T1'', dept = ''RS'', status = Some ''Active'', valid_from = None,
            valid_to = \<lparr>year = 2099, month = 12, day = 31, tod = 0\<rparr>, source = None\<rparr>"
  let ?B = "\<lparr>cert_id = 2, trainset_id = ''T2'', dept = ''SIG'', status = None, valid_from = None,
            valid_to = \<lparr>year = 2020, month = 1, day = 1, tod = 0\<rparr>, source = None\<rparr>"
  let ?now = "\<lparr>year = 2025, month = 3, day = 15, tod = 36000000000\<rparr>"
  have uq: "uq_ok [?A, ?B]" by (simp add: uq_ok_def uq_key_def)
  have low: "lower ''Active'' \<in> fst ` set VALID_MAP" by code_simp
  have "{p. \<exists>r\<in>set [?A, ?B]. pair_of r = p
             \<and> (\<forall>x\<in>set [?A, ?B]. pair_of x = p \<longrightarrow> dt_le (valid_to x) (valid_to r))
             \<and> (status r = None \<or> (\<exists>s. status r = Some s \<and> lower s \<in> fst ` set VALID_MAP))
             \<and> dt_le ?now (valid_to r)} = {(''T1'', ''RS'')}"
    using low by (auto simp: pair_of_def eval_dt)
  with total_active_counts_live_pairs [OF uq, of no_fallback ?now] uq show ?thesis by simp
qed

text \<open>
  C1 as stated fails: a latest row whose status is in the synonym set and whose
  \<^verbatim>\<open>valid_to\<close> is in the past is not counted.
\<close>

theorem total_active_claimed_rule_counterexample:
  "map_of VALID_MAP (lower ''valid'') = Some ''valid''
   \<and> latest [\<lparr>cert_id = 1, trainset_id = ''T1'', dept = ''RS'', status = Some ''valid'',
               valid_from = None, valid_to = \<lparr>year = 2020, month = 1, day = 1, tod = 0\<rparr>,
               source = Some ''api''\<rparr>]
       = [\<lparr>cert_id = 1, trainset_id = ''T1'', dept = ''RS'', status = Some ''valid'',
               valid_from = None, valid_to = \<lparr>year = 2020, month = 1, day = 1, tod = 0\<rparr>,
               source = Some ''api''\<rparr>]
   \<and> total_active no_fallback \<lparr>year = 2025, month = 3, day = 15, tod = 36000000000\<rparr>
        [\<lparr>cert_id = 1, trainset_id = ''T1'', dept = ''RS'', status = Some ''valid'',
               valid_from = None, valid_to = \<lparr>year = 2020, month = 1, day = 1, tod = 0\<rparr>,
               source = Some ''api''\<rparr>] = Inr 0"
proof -
  have "map_of VALID_MAP (lower ''valid'') = Some ''valid''" by code_simp
  then show ?thesis
    by (simp add: total_active_def active_loop_eq latest_filter is_latest_def eval_dt)
qed

text \<open>
  C2 fails on the code. The gate of \<^verbatim>\<open>expiring_within\<close> spells out the claimed rule,
  \<^verbatim>\<open>_valid_status_clause(st) or (st is None and v_to_dt >= now)\<close>, but
  \<^verbatim>\<open>_valid_status_clause(None)\<close> is already true, so the date is never looked at: at
  10:00 on 15 March 2025 a latest row with no status whose \<^verbatim>\<open>valid_to\<close> was midnight
  of that day, an instant already past, is reported, while \<^verbatim>\<open>total_active\<close> leaves
  the same row out.
\<close>

theorem expiring_within_reports_expired_absent_status:
  "\<not> dt_le \<lparr>year = 2025, month = 3, day = 15, tod = 36000000000\<rparr>
            \<lparr>year = 2025, month = 3, day = 15, tod = 0\<rparr>
   \<and> expiring_within no_fallback 0 \<lparr>year = 2025, month = 3, day = 15, tod = 36000000000\<rparr>
        [\<lparr>cert_id = 1, trainset_id = ''T2'', dept = ''SIG'', status = None,
          valid_from = None, valid_to = \<lparr>year = 2025, month = 3, day = 15, tod = 0\<rparr>,
          source = Some ''csv-import''\<rparr>]
       = Inr [\<lparr>train_id = ''T2'', department = ''SIG'', expiry_date = ''15/03/2025'',
               days_to_expiry = 0\<rparr>]
   \<and> total_active no_fallback \<lparr>year = 2025, month = 3, day = 15, tod = 36000000000\<rparr>
        [\<lparr>cert_id = 1, trainset_id = ''T2'', dept = ''SIG'', status = None,
          valid_from = None, valid_to = \<lparr>year = 2025, month = 3, day = 15, tod = 0\<rparr>,
          source = Some ''csv-import''\<rparr>]
       = Inr 0"
proof -
  have "strftime_dmy \<lparr>year = 2025, month = 3, day = 15, tod = 0\<rparr> = ''15/03/2025''"
    by code_simp
  then show ?thesis
    by (simp add: expiring_within_eq total_active_def active_loop_eq latest_filter is_latest_def
        valid_gate_status valid_status_clause_def window_def result_row_def eval_dt)
qed

text \<open>
  C3. A latest row that passes the validity gate is in the report for \<open>n\<close> days exactly
  when the difference of the calendar dates of its \<^verbatim>\<open>valid_to\<close> and of now is between
  0 and \<open>n\<close>; the difference does not depend on the time of day; and a row whose
  \<^verbatim>\<open>valid_to\<close> falls on the day after today is reported for 1 day and not for 0 days.
\<close>

theorem expiring_within_calendar_day_window:
  assumes "c \<in> set (latest db)" and "valid_gate now (status c) (valid_to c)"
  shows "(reported fb n now db c \<longleftrightarrow>
            0 \<le> date_ordinal (valid_to c) - date_ordinal now
            \<and> date_ordinal (valid_to c) - date_ordinal now \<le> n)
         \<and> (\<forall>t u. delta_days (now\<lparr>tod := u\<rparr>) ((valid_to c)\<lparr>tod := t\<rparr>)
                    = date_ordinal (valid_to c) - date_ordinal now)
         \<and> (date_ordinal (valid_to c) = date_ordinal now + 1 \<longrightarrow>
              reported fb 1 now db c \<and> \<not> reported fb 0 now db c)"
proof -
  have rep: "reported fb k now db c \<longleftrightarrow> window k now c" for k
  proof
    assume "reported fb k now db c"
    then obtain x where "window k now x"
      "result_row now x (valid_to x) = result_row now c (valid_to c)"
      unfolding reported_iff by blast
    then have "window k now x" "delta_days now (valid_to x) = delta_days now (valid_to c)"
      by (simp_all add: result_row_def)
    then show "window k now c" by (simp add: window_def)
  next
    assume "window k now c"
    with assms show "reported fb k now db c" unfolding reported_iff by blast
  qed
  have tod: "delta_days (now\<lparr>tod := u\<rparr>) ((valid_to c)\<lparr>tod := t\<rparr>)
               = date_ordinal (valid_to c) - date_ordinal now" for t u
    by (simp add: delta_days_def date_ordinal_def)
  show ?thesis
    using rep [of n] rep [of 1] rep [of 0] tod by (simp add: window_def delta_days_def)
qed

theorem expiring_within_calendar_day_window_witness:
  "\<lparr>cert_id = 1, trainset_id = ''T2'', dept = ''SIG'', status = None, valid_from = None,
     valid_to = \<lparr>year = 2025, month = 3, day = 16, tod = 30600000000\<rparr>, source = None\<rparr>
     \<in> set (latest [\<lparr>cert_id = 1, trainset_id = ''T2'', dept = ''SIG'', status = None,
                      valid_from = None,
                      valid_to = \<lparr>year = 2025, month = 3, day = 16, tod = 30600000000\<rparr>,
                      source = None\<rparr>])
   \<and> valid_gate \<lparr>year = 2025, month = 3, day = 15, tod = 82800000000\<rparr> None
        \<lparr>year = 2025, month = 3, day = 16, tod = 30600000000\<rparr>
   \<and> reported no_fallback 1 \<lparr>year = 2025, month = 3, day = 15, tod = 82800000000\<rparr>
        [\<lparr>cert_id = 1, trainset_id = ''T2'', dept = ''SIG'', status = None, valid_from = None,
          valid_to = \<lparr>year = 2025, month = 3, day = 16, tod = 30600000000\<rparr>, source = None\<rparr>]
        \<lparr>cert_id = 1, trainset_id = ''T2'', dept = ''SIG'', status = None, valid_from = None,
          valid_to = \<lparr>year = 2025, month = 3, day = 16, tod = 30600000000\<rparr>, source = None\<rparr>
   \<and> \<not> reported no_fallback 0 \<lparr>year = 2025, month = 3, day = 15, tod = 82800000000\<rparr>
        [\<lparr>cert_id = 1, trainset_id = ''T2'', dept = ''SIG'', status = None, valid_from = None,
          valid_to = \<lparr>year = 2025, month = 3, day = 16, tod = 30600000000\<rparr>, source = None\<rparr>]
        \<lparr>cert_id = 1, trainset_id = ''T2'', dept = ''SIG'', status = None, valid_from = None,
          valid_to = \<lparr>year = 2025, month = 3, day = 16, tod = 30600000000\<rparr>, source = None\<rparr>"
proof -
  let ?C = "\<lparr>cert_id = 1, trainset_id = ''T2'', dept = ''SIG'', status = None, valid_from = None,
     valid_to = \<lparr>year = 2025, month = 3, day = 16, tod = 30600000000\<rparr>, source = None\<rparr>"
  let ?now = "\<lparr>year = 2025, month = 3, day = 15, tod = 82800000000\<rparr>"
  have mem: "?C \<in> set (latest [?C])" by (simp add: latest_filter is_latest_def dt_le_refl)
  have gate: "valid_gate ?now (status ?C) (valid_to ?C)"
    by (simp add: valid_gate_def valid_status_clause_def)
  have tomorrow: "date_ordinal (valid_to ?C) = date_ordinal ?now + 1" by (simp add: eval_dt)
  from expiring_within_calendar_day_window [OF mem gate, of no_fallback 1] tomorrow
  have "reported no_fallback 1 ?now [?C] ?C \<and> \<not> reported no_fallback 0 ?now [?C] ?C" by blast
  with mem gate show ?thesis by simp
qed





subsection \<open>Claims on the single-record writes\<close>

lemma to_dt_no_raise: "w \<noteq> PNaT \<Longrightarrow> \<exists>r. to_dt fb w = Inr r"
  by (cases w) (auto simp: to_dt_def split: option.splits)

lemma key_exists_iff: "key_exists db c \<longleftrightarrow> uq_key c \<in> uq_key ` set db"
  by (simp add: key_exists_def list_ex_iff image_iff) metis

text \<open>
  C8. When the record exists and the patch carries a \<^verbatim>\<open>valid_to\<close> that the
  normaliser turns into no value, \<^verbatim>\<open>update_certificate\<close> returns
  \<^verbatim>\<open>{updated: 0, error}\<close> and the table is the one it started with, whatever other
  fields the patch supplies. (A patch comes from a request body, which cannot hold
  \<^verbatim>\<open>NaT\<close>.)
\<close>

theorem update_certificate_rejects_bad_valid_to:
  assumes "db_get db i = Some c" and "p_valid_to p = Some w" and "to_dt fb w = Inr None"
    and "p_valid_from p \<noteq> Some PNaT"
  shows "update_certificate fb i p db =
           Inr (db, \<lparr>updated = 0, update_error = Some ''valid_to must be a valid date''\<rparr>)"
proof -
  obtain c4 where c4: "patch_valid_from fb p (patch_text p c) = Inr c4"
  proof (cases "p_valid_from p")
    case None
    then show ?thesis using that by (simp add: patch_valid_from_def)
  next
    case (Some v)
    with assms(4) have "v \<noteq> PNaT" by auto
    then obtain r where "to_dt fb v = Inr r" using to_dt_no_raise by blast
    with Some show ?thesis using that by (simp add: patch_valid_from_def)
  qed
  have "patch_valid_to fb p c4 = Inr None"
    using assms(2,3) by (simp add: patch_valid_to_def)
  with c4 assms(1) show ?thesis by (simp add: update_certificate_def)
qed

theorem update_certificate_rejects_bad_valid_to_witness:
  "db_get [\<lparr>cert_id = 7, trainset_id = ''T1'', dept = ''RS'', status = Some ''valid'',
            valid_from = None, valid_to = \<lparr>year = 2025, month = 6, day = 30, tod = 0\<rparr>,
            source = Some ''api''\<rparr>] 7
     = Some \<lparr>cert_id = 7, trainset_id = ''T1'', dept = ''RS'', status = Some ''valid'',
            valid_from = None, valid_to = \<lparr>year = 2025, month = 6, day = 30, tod = 0\<rparr>,
            source = Some ''api''\<rparr>
   \<and> to_dt no_fallback (PStr ''not-a-date'') = Inr None
   \<and> update_certificate no_fallback 7
        \<lparr>p_trainset_id = Some ''T9'', p_dept = Some ''signalling'', p_status = Some ''revoked'',
         p_valid_from = Some (PStr ''2025-01-01''), p_valid_to = Some (PStr ''not-a-date'')\<rparr>
        [\<lparr>cert_id = 7, trainset_id = ''T1'', dept = ''RS'', status = Some ''valid'',
            valid_from = None, valid_to = \<lparr>year = 2025, month = 6, day = 30, tod = 0\<rparr>,
            source = Some ''api''\<rparr>]
     = Inr ([\<lparr>cert_id = 7, trainset_id = ''T1'', dept = ''RS'', status = Some ''valid'',
            valid_from = None, valid_to = \<lparr>year = 2025, month = 6, day = 30, tod = 0\<rparr>,
            source = Some ''api''\<rparr>],
            \<lparr>updated = 0, update_error = Some ''valid_to must be a valid date''\<rparr>)"
proof -
  let ?C = "\<lparr>cert_id = 7, trainset_id = ''T1'', dept = ''RS'', status = Some ''valid'',
            valid_from = None, valid_to = \<lparr>year = 2025, month = 6, day = 30, tod = 0\<rparr>,
            source = Some ''api''\<rparr>"
  let ?p = "\<lparr>p_trainset_id = Some ''T9'', p_dept = Some ''signalling'', p_status = Some ''revoked'',
         p_valid_from = Some (PStr ''2025-01-01''), p_valid_to = Some (PStr ''not-a-date'')\<rparr>"
  have g: "db_get [?C] 7 = Some ?C" by (simp add: db_get_def)
  have v: "p_valid_to ?p = Some (PStr ''not-a-date'')" by simp
  have t: "to_dt no_fallback (PStr ''not-a-date'') = Inr None" by code_simp
  have f: "p_valid_from ?p \<noteq> Some PNaT" by simp
  from update_certificate_rejects_bad_valid_to [OF g v t f] g t show ?thesis by simp
qed

text \<open>
  C9 fails on the code. \<^verbatim>\<open>add_certificate\<close> commits without looking for an
  existing row and without catching the database's refusal: a call that succeeded,
  repeated on the table it produced, raises \<^verbatim>\<open>IntegrityError\<close> instead of
  returning \<^verbatim>\<open>{error}\<close>.
\<close>

theorem add_certificate_twice_raises:
  assumes "add_certificate fb r db = Inr (db1, AddId i)"
  shows "add_certificate fb r db1 = Inl IntegrityError"
proof -
  let ?t = "strip (or_else (a_trainset_id r) [])"
  let ?d = "dept_norm (or_else (a_dept r) [])"
  let ?c = "\<lambda>tb vf v. \<lparr>cert_id = next_id tb, trainset_id = ?t, dept = ?d,
                 status = (if or_else (a_status r) [] = [] then None
                           else Some (lower (or_else (a_status r) []))),
                 valid_from = vf, valid_to = v, source = Some (or_else (a_source r) ''api'')\<rparr>"
  from assms obtain v where v: "to_dt fb (a_valid_to r) = Inr (Some v)"
    by (auto simp: add_certificate_def Let_def split: sum.splits option.splits)
  with assms have ne: "?t \<noteq> []" "?d \<noteq> []"
    by (auto simp: add_certificate_def Let_def split: if_splits)
  with assms v obtain vf where vf: "to_dt fb (a_valid_from r) = Inr vf"
    by (auto simp: add_certificate_def Let_def split: sum.splits)
  with assms v ne have "insert_row db (?c db vf v) = Inr db1"
    by (auto simp: add_certificate_def Let_def split: sum.splits)
  then have "db1 = db @ [?c db vf v]"
    by (auto simp: insert_row_def split: if_splits)
  then have "key_exists db1 (?c db1 vf v)"
    by (simp add: key_exists_iff uq_key_def)
  then have "insert_row db1 (?c db1 vf v) = Inl IntegrityError"
    by (simp add: insert_row_def)
  with v vf ne show ?thesis by (simp add: add_certificate_def Let_def)
qed

theorem add_certificate_twice_raises_witness:
  "add_certificate no_fallback
     \<lparr>a_trainset_id = Some ''T1'', a_dept = Some ''Rolling Stock'', a_status = None,
      a_valid_from = PNone, a_valid_to = PStr ''2025-01-01'', a_source = None\<rparr> []
     = Inr ([\<lparr>cert_id = 1, trainset_id = ''T1'', dept = ''RS'', status = None,
              valid_from = None, valid_to = \<lparr>year = 2025, month = 1, day = 1, tod = 0\<rparr>,
              source = Some ''api''\<rparr>], AddId 1)
   \<and> add_certificate no_fallback
     \<lparr>a_trainset_id = Some ''T1'', a_dept = Some ''Rolling Stock'', a_status = None,
      a_valid_from = PNone, a_valid_to = PStr ''2025-01-01'', a_source = None\<rparr>
     [\<lparr>cert_id = 1, trainset_id = ''T1'', dept = ''RS'', status = None,
              valid_from = None, valid_to = \<lparr>year = 2025, month = 1, day = 1, tod = 0\<rparr>,
              source = Some ''api''\<rparr>]
     = Inl IntegrityError"
proof -
  have first: "add_certificate no_fallback
     \<lparr>a_trainset_id = Some ''T1'', a_dept = Some ''Rolling Stock'', a_status = None,
      a_valid_from = PNone, a_valid_to = PStr ''2025-01-01'', a_source = None\<rparr> []
     = Inr ([\<lparr>cert_id = 1, trainset_id = ''T1'', dept = ''RS'', status = None,
              valid_from = None, valid_to = \<lparr>year = 2025, month = 1, day = 1, tod = 0\<rparr>,
              source = Some ''api''\<rparr>], AddId 1)"
    by code_simp
  from add_certificate_twice_raises [OF first] first show ?thesis by simp
qed

subsection \<open>The upsert loop\<close>

lemma to_dt_NaT: "to_dt fb PNaT = Inl ValueError"
  by code_simp

lemma to_dt_stamp:
  "to_dt fb (py_of_stamp x) = (case x of Timestamp t \<Rightarrow> Inr (Some t) | NaT \<Rightarrow> Inl ValueError)"
  by (cases x) (simp_all add: py_of_stamp_def to_dt_NaT to_dt_datetime)

lemma uq_key_row_cert: "uq_key (row_cert hs db r f v) = (strip (r_train r), strip (r_dept r), v)"
  by (simp add: uq_key_def row_cert_def)

lemma upsert_loop_Cons_bad:
  "vt = NaT \<or> (hf \<and> vf = NaT) \<Longrightarrow> upsert_loop fb hs hf ((r, vf, vt) # rest) db i s = Inl ValueError"
  by (cases vt) (auto simp: to_dt_stamp)

lemma upsert_loop_Cons_ok:
  assumes "hf \<longrightarrow> vf \<noteq> NaT"
  shows "\<exists>f. upsert_loop fb hs hf ((r, vf, Timestamp v) # rest) db i s =
           (if key_exists db (row_cert hs db r f v) then upsert_loop fb hs hf rest db i (s + 1)
            else upsert_loop fb hs hf rest (db @ [row_cert hs db r f v]) (i + 1) s)"
proof (cases hf)
  case True
  with assms obtain t where "vf = Timestamp t" by (cases vf) auto
  with True show ?thesis by (intro exI [of _ "Some t"]) (simp add: to_dt_stamp)
next
  case False
  then show ?thesis by (intro exI [of _ None]) (simp add: to_dt_stamp)
qed

lemma upsert_loop_NaT:
  "(r, vf, NaT) \<in> set rs \<Longrightarrow> upsert_loop fb hs hf rs db i s = Inl ValueError"
proof (induction rs arbitrary: db i s)
  case Nil
  then show ?case by simp
next
  case (Cons x rs)
  obtain r' vf' vt' where x: "x = (r', vf', vt')" by (cases x) auto
  show ?case
  proof (cases "vt' = NaT \<or> (hf \<and> vf' = NaT)")
    case True
    then show ?thesis unfolding x by (rule upsert_loop_Cons_bad)
  next
    case False
    then obtain v where v: "vt' = Timestamp v" by (cases vt') auto
    with Cons.prems x have "(r, vf, NaT) \<in> set rs" by auto
    then have ih: "upsert_loop fb hs hf rs db2 i2 s2 = Inl ValueError" for db2 i2 s2
      by (rule Cons.IH)
    from False have "hf \<longrightarrow> vf' \<noteq> NaT" by simp
    from upsert_loop_Cons_ok [OF this, of fb hs r' v rs db i s]
    show ?thesis unfolding x v ih by auto
  qed
qed

lemma upsert_loop_returns:
  "upsert_loop fb hs hf rs db i s = Inr (db', i', s') \<Longrightarrow>
     uq_key ` set db \<subseteq> uq_key ` set db'
     \<and> (\<forall>(r, vf, vt)\<in>set rs. (hf \<longrightarrow> vf \<noteq> NaT)
           \<and> (\<exists>v. vt = Timestamp v \<and> (strip (r_train r), strip (r_dept r), v) \<in> uq_key ` set db'))"
proof (induction rs arbitrary: db i s)
  case Nil
  then show ?case by simp
next
  case (Cons x rs)
  obtain r vf vt where x: "x = (r, vf, vt)" by (cases x) auto
  have good: "\<not> (vt = NaT \<or> (hf \<and> vf = NaT))"
  proof
    assume "vt = NaT \<or> (hf \<and> vf = NaT)"
    from upsert_loop_Cons_bad [OF this] Cons.prems show False by (simp only: x) simp
  qed
  then obtain v where vt: "vt = Timestamp v" by (cases vt) auto
  from good have vf: "hf \<longrightarrow> vf \<noteq> NaT" by simp
  from upsert_loop_Cons_ok [OF vf, of fb hs r v rs db i s] obtain f where
    step: "upsert_loop fb hs hf ((r, vf, Timestamp v) # rs) db i s =
           (if key_exists db (row_cert hs db r f v) then upsert_loop fb hs hf rs db i (s + 1)
            else upsert_loop fb hs hf rs (db @ [row_cert hs db r f v]) (i + 1) s)" by blast
  show ?case
  proof (cases "key_exists db (row_cert hs db r f v)")
    case True
    with Cons.prems step have "upsert_loop fb hs hf rs db i (s + 1) = Inr (db', i', s')"
      by (simp only: x vt) simp
    from Cons.IH [OF this] True vf show ?thesis
      by (auto simp: x vt key_exists_iff uq_key_row_cert)
  next
    case False
    with Cons.prems step
    have "upsert_loop fb hs hf rs (db @ [row_cert hs db r f v]) (i + 1) s = Inr (db', i', s')"
      by (simp only: x vt) simp
    from Cons.IH [OF this] vf show ?thesis
      by (auto simp: x vt uq_key_row_cert)
  qed
qed

lemma upsert_loop_all_present:
  "\<forall>(r, vf, vt)\<in>set rs. (hf \<longrightarrow> vf \<noteq> NaT)
       \<and> (\<exists>v. vt = Timestamp v \<and> (strip (r_train r), strip (r_dept r), v) \<in> uq_key ` set db)
   \<Longrightarrow> upsert_loop fb hs hf rs db i s = Inr (db, i, s + length rs)"
proof (induction rs arbitrary: i s)
  case Nil
  then show ?case by simp
next
  case (Cons x rs)
  obtain r vf vt where x: "x = (r, vf, vt)" by (cases x) auto
  from Cons.prems obtain v where vt: "vt = Timestamp v"
    and k: "(strip (r_train r), strip (r_dept r), v) \<in> uq_key ` set db"
    and vf: "hf \<longrightarrow> vf \<noteq> NaT" by (auto simp: x)
  from upsert_loop_Cons_ok [OF vf, of fb hs r v rs db i s] obtain f where
    step: "upsert_loop fb hs hf ((r, vf, Timestamp v) # rs) db i s =
           (if key_exists db (row_cert hs db r f v) then upsert_loop fb hs hf rs db i (s + 1)
            else upsert_loop fb hs hf rs (db @ [row_cert hs db r f v]) (i + 1) s)" by blast
  have "key_exists db (row_cert hs db r f v)"
    using k by (simp add: key_exists_iff uq_key_row_cert)
  moreover have "upsert_loop fb hs hf rs db i (s + 1) = Inr (db, i, s + 1 + length rs)"
    using Cons.prems by (intro Cons.IH) simp
  ultimately show ?case using step by (simp only: x vt) simp
qed

subsection \<open>Claims on the ingestion\<close>

lemma first_parse_Some: "first_parse td ks s = Some out \<Longrightarrow> \<exists>k. out = td k s"
  by (induction ks) (auto split: if_splits)

lemma length_parse_date_series:
  assumes "\<And>k s. length (td k s) = length s"
  shows "length (parse_date_series td s) = length s"
proof (cases "first_parse td kws s")
  case None
  then show ?thesis by (simp add: parse_date_series_def assms)
next
  case (Some out)
  then obtain k where "out = td k s" using first_parse_Some by blast
  with Some show ?thesis by (simp add: parse_date_series_def assms)
qed

lemma upsert_error_sources:
  "upsert_from_csv td fb (FileMissing path) db =
     Inr (db, \<lparr>imported = 0, skipped = 0,
               upsert_error = Some (''file not found: '' @ path), detail = None\<rparr>)"
  "upsert_from_csv td fb ColumnsMissing db =
     Inr (db, \<lparr>imported = 0, skipped = 0,
               upsert_error = Some ''required columns missing'', detail = None\<rparr>)"
  "csv_rows f = [] \<Longrightarrow> upsert_from_csv td fb (Frame f) db =
     Inr (db, \<lparr>imported = 0, skipped = 0, upsert_error = Some ''csv empty'', detail = None\<rparr>)"
  by (simp_all add: upsert_from_csv_def)

lemma upsert_frame:
  "csv_rows f \<noteq> [] \<Longrightarrow> upsert_from_csv td fb (Frame f) db =
     (case upsert_loop fb (has_stat f) (has_vfrom f) (loop_rows td f) db 0 0 of
        Inl e \<Rightarrow> Inl e
      | Inr (db', imp, skp) \<Rightarrow>
          Inr (db', \<lparr>imported = imp, skipped = skp, upsert_error = None, detail = Some ''ok''\<rparr>))"
  by (simp add: upsert_from_csv_def)

lemma parsed_rows_simps:
  "parsed_rows td fb (FileMissing path) = 0"
  "parsed_rows td fb ColumnsMissing = 0"
  "csv_rows f = [] \<Longrightarrow> parsed_rows td fb (Frame f) = 0"
  by (simp_all add: parsed_rows_def loop_rows_def)


text \<open>
  C6. When an ingestion returns a result, ingesting the same file again on the table it
  produced leaves the table as it is and returns \<^verbatim>\<open>imported = 0\<close> and a
  \<^verbatim>\<open>skipped\<close> equal to the number of rows of the file whose expiry normalises to an
  instant.
\<close>

theorem upsert_from_csv_twice:
  assumes "upsert_from_csv td fb src db = Inr (db1, r1)"
  shows "\<exists>r2. upsert_from_csv td fb src db1 = Inr (db1, r2)
              \<and> imported r2 = 0 \<and> skipped r2 = parsed_rows td fb src"
proof (cases src)
  case (FileMissing path)
  from assms have "db1 = db" unfolding FileMissing upsert_error_sources by simp
  then show ?thesis unfolding FileMissing upsert_error_sources parsed_rows_simps by simp
next
  case ColumnsMissing
  from assms have "db1 = db" unfolding ColumnsMissing upsert_error_sources by simp
  then show ?thesis unfolding ColumnsMissing upsert_error_sources parsed_rows_simps by simp
next
  case (Frame f)
  show ?thesis
  proof (cases "csv_rows f = []")
    case True
    from assms have "db1 = db" unfolding Frame upsert_error_sources(3) [OF True] by simp
    then show ?thesis
      unfolding Frame upsert_error_sources(3) [OF True] parsed_rows_simps(3) [OF True] by simp
  next
    case False
    let ?rs = "loop_rows td f"
    let ?run = "upsert_loop fb (has_stat f) (has_vfrom f) ?rs db 0 0"
    from assms have a: "(case ?run of Inl e \<Rightarrow> Inl e
        | Inr (db', imp, skp) \<Rightarrow>
            Inr (db', \<lparr>imported = imp, skipped = skp, upsert_error = None,
                      detail = Some ''ok''\<rparr>)) = Inr (db1, r1)"
      unfolding Frame upsert_frame [OF False] .
    obtain i s where run: "?run = Inr (db1, i, s)"
    proof (cases ?run)
      case (Inl e)
      with a show ?thesis by simp
    next
      case (Inr t)
      obtain d i s where t: "t = (d, i, s)" by (cases t) auto
      with a Inr have "d = db1" by simp
      with Inr t show ?thesis using that by simp
    qed
    from upsert_loop_returns [OF run]
    have ok: "\<forall>(r, vf, vt)\<in>set ?rs. (has_vfrom f \<longrightarrow> vf \<noteq> NaT)
        \<and> (\<exists>v. vt = Timestamp v \<and> (strip (r_train r), strip (r_dept r), v) \<in> uq_key ` set db1)"
      by (rule conjunct2)
    then have again:
      "upsert_loop fb (has_stat f) (has_vfrom f) ?rs db1 0 0 = Inr (db1, 0, 0 + length ?rs)"
      by (rule upsert_loop_all_present)
    have each: "(case to_dt fb (py_of_stamp (snd (snd x))) of
                   Inl e \<Rightarrow> False | Inr None \<Rightarrow> False | Inr (Some v) \<Rightarrow> True)"
      if "x \<in> set ?rs" for x
    proof -
      obtain r vf vt where x: "x = (r, vf, vt)" by (cases x) auto
      with that ok obtain v where "vt = Timestamp v" by blast
      then show ?thesis by (simp add: x to_dt_stamp)
    qed
    then have "filter (\<lambda>x. case to_dt fb (py_of_stamp (snd (snd x))) of
                   Inl e \<Rightarrow> False | Inr None \<Rightarrow> False | Inr (Some v) \<Rightarrow> True) ?rs = ?rs"
      by (simp add: filter_id_conv)
    then have "parsed_rows td fb src = length ?rs"
      unfolding parsed_rows_def Frame by simp
    with again show ?thesis unfolding Frame upsert_frame [OF False] by simp
  qed
qed


theorem upsert_from_csv_twice_witness:
  "upsert_from_csv example_to_datetime no_fallback
        (Frame \<lparr>has_stat = True, has_vfrom = False, csv_rows =
           [\<lparr>r_train = ''T1'', r_dept = ''Rolling Stock'', r_stat = ''Active'', r_vfrom = '''',
             r_vto = ''31/12/2099''\<rparr>,
            \<lparr>r_train = ''T1 '', r_dept = ''ROLLING'', r_stat = ''ok'', r_vfrom = '''',
             r_vto = ''31/12/2099''\<rparr>]\<rparr>) []
     = Inr ([\<lparr>cert_id = 1, trainset_id = ''T1'', dept = ''RS'', status = Some ''valid'',
              valid_from = None, valid_to = \<lparr>year = 2099, month = 12, day = 31, tod = 0\<rparr>,
              source = Some ''csv-import''\<rparr>],
            \<lparr>imported = 1, skipped = 1, upsert_error = None, detail = Some ''ok''\<rparr>)
   \<and> upsert_from_csv example_to_datetime no_fallback
        (Frame \<lparr>has_stat = True, has_vfrom = False, csv_rows =
           [\<lparr>r_train = ''T1'', r_dept = ''Rolling Stock'', r_stat = ''Active'', r_vfrom = '''',
             r_vto = ''31/12/2099''\<rparr>,
            \<lparr>r_train = ''T1 '', r_dept = ''ROLLING'', r_stat = ''ok'', r_vfrom = '''',
             r_vto = ''31/12/2099''\<rparr>]\<rparr>)
        [\<lparr>cert_id = 1, trainset_id = ''T1'', dept = ''RS'', status = Some ''valid'',
              valid_from = None, valid_to = \<lparr>year = 2099, month = 12, day = 31, tod = 0\<rparr>,
              source = Some ''csv-import''\<rparr>]
     = Inr ([\<lparr>cert_id = 1, trainset_id = ''T1'', dept = ''RS'', status = Some ''valid'',
              valid_from = None, valid_to = \<lparr>year = 2099, month = 12, day = 31, tod = 0\<rparr>,
              source = Some ''csv-import''\<rparr>],
            \<lparr>imported = 0, skipped = 2, upsert_error = None, detail = Some ''ok''\<rparr>)"
proof -
  let ?src = "Frame \<lparr>has_stat = True, has_vfrom = False, csv_rows =
           [\<lparr>r_train = ''T1'', r_dept = ''Rolling Stock'', r_stat = ''Active'', r_vfrom = '''',
             r_vto = ''31/12/2099''\<rparr>,
            \<lparr>r_train = ''T1 '', r_dept = ''ROLLING'', r_stat = ''ok'', r_vfrom = '''',
             r_vto = ''31/12/2099''\<rparr>]\<rparr>"
  let ?db1 = "[\<lparr>cert_id = 1, trainset_id = ''T1'', dept = ''RS'', status = Some ''valid'',
              valid_from = None, valid_to = \<lparr>year = 2099, month = 12, day = 31, tod = 0\<rparr>,
              source = Some ''csv-import''\<rparr>]"
  have first: "upsert_from_csv example_to_datetime no_fallback ?src []
     = Inr (?db1, \<lparr>imported = 1, skipped = 1, upsert_error = None, detail = Some ''ok''\<rparr>)"
    by code_simp
  have n: "parsed_rows example_to_datetime no_fallback ?src = 2"
    by code_simp
  from upsert_from_csv_twice [OF first] obtain r2 where
    r2: "upsert_from_csv example_to_datetime no_fallback ?src ?db1 = Inr (?db1, r2)"
      "imported r2 = 0" "skipped r2 = parsed_rows example_to_datetime no_fallback ?src"
    by blast
  have ne: "csv_rows \<lparr>has_stat = True, has_vfrom = False, csv_rows =
           [\<lparr>r_train = ''T1'', r_dept = ''Rolling Stock'', r_stat = ''Active'', r_vfrom = '''',
             r_vto = ''31/12/2099''\<rparr>,
            \<lparr>r_train = ''T1 '', r_dept = ''ROLLING'', r_stat = ''ok'', r_vfrom = '''',
             r_vto = ''31/12/2099''\<rparr>]\<rparr> \<noteq> []" by simp
  from r2(1) have "upsert_error r2 = None \<and> detail r2 = Some ''ok''"
    unfolding upsert_frame [OF ne] by (auto split: sum.splits)
  with r2 n have "r2 = \<lparr>imported = 0, skipped = 2, upsert_error = None, detail = Some ''ok''\<rparr>"
    by (cases r2) simp
  with first r2(1) show ?thesis by simp
qed

lemma loop_rows_nth:
  assumes "\<And>k s. length (td k s) = length s" and "n < length (csv_rows f)"
  shows "n < length (loop_rows td f)"
    and "snd (snd (loop_rows td f ! n)) = parse_date_series td (map r_vto (csv_rows f)) ! n"
proof -
  have len: "length (parse_date_series td s) = length s" for s
    using assms(1) by (rule length_parse_date_series)
  define vfs where "vfs = (if has_vfrom f then parse_date_series td (map r_vfrom (csv_rows f))
                           else map (\<lambda>_. NaT) (csv_rows f))"
  define vts where "vts = parse_date_series td (map r_vto (csv_rows f))"
  define rs where "rs = map (\<lambda>r. r\<lparr>r_stat := (if has_stat f then norm_stat (r_stat r) else r_stat r),
                            r_dept := dept_norm (r_dept r)\<rparr>) (csv_rows f)"
  have lr: "loop_rows td f = zip rs (zip vfs vts)"
    by (simp add: loop_rows_def Let_def vfs_def vts_def rs_def)
  have l: "length rs = length (csv_rows f)" "length vfs = length (csv_rows f)"
    "length vts = length (csv_rows f)"
    by (simp_all add: rs_def vfs_def vts_def len)
  show "n < length (loop_rows td f)" using assms(2) by (simp add: lr l)
  show "snd (snd (loop_rows td f ! n)) = parse_date_series td (map r_vto (csv_rows f)) ! n"
    using assms(2) by (simp add: lr l vts_def [symmetric])
qed

text \<open>
  C7 fails on the code. A cell of the expiry column that does not parse is \<^verbatim>\<open>NaT\<close>
  after \<^verbatim>\<open>_parse_date_series\<close>; \<^verbatim>\<open>_to_dt\<close> does not turn it into \<^verbatim>\<open>None\<close> but
  raises, so the row is not skipped and counted: the whole call raises
  \<^verbatim>\<open>ValueError\<close> and nothing is committed.
\<close>

theorem upsert_from_csv_unparsed_expiry_raises:
  assumes "\<forall>k s. length (td k s) = length s"
    and "NaT \<in> set (parse_date_series td (map r_vto (csv_rows f)))"
  shows "upsert_from_csv td fb (Frame f) db = Inl ValueError"
proof -
  have lt: "length (td k s) = length s" for k s using assms(1) by simp
  let ?vts = "parse_date_series td (map r_vto (csv_rows f))"
  from assms(2) obtain n where n: "n < length ?vts" "?vts ! n = NaT"
    unfolding in_set_conv_nth by blast
  have "length ?vts = length (csv_rows f)"
    using length_parse_date_series [of td, OF lt] by simp
  with n have nl: "n < length (csv_rows f)" by simp
  then have ne: "csv_rows f \<noteq> []" by auto
  obtain r vf vt where x: "loop_rows td f ! n = (r, vf, vt)"
    by (cases "loop_rows td f ! n") auto
  from loop_rows_nth(2) [of td n f, OF lt nl] n(2) x have "vt = NaT" by simp
  moreover from loop_rows_nth(1) [of td n f, OF lt nl]
  have "loop_rows td f ! n \<in> set (loop_rows td f)" by (rule nth_mem)
  ultimately have "(r, vf, NaT) \<in> set (loop_rows td f)" using x by simp
  then have "upsert_loop fb (has_stat f) (has_vfrom f) (loop_rows td f) db 0 0 = Inl ValueError"
    by (rule upsert_loop_NaT)
  then show ?thesis unfolding upsert_frame [OF ne] by simp
qed

theorem upsert_from_csv_unparsed_expiry_raises_witness:
  "(\<forall>k s. length (example_to_datetime k s) = length s)
   \<and> parse_date_series example_to_datetime [''01/02/2025'', ''n/a'']
       = [Timestamp \<lparr>year = 2025, month = 1, day = 2, tod = 0\<rparr>, NaT]
   \<and> upsert_from_csv example_to_datetime no_fallback
        (Frame \<lparr>has_stat = False, has_vfrom = False, csv_rows =
           [\<lparr>r_train = ''T1'', r_dept = ''RS'', r_stat = '''', r_vfrom = '''', r_vto = ''01/02/2025''\<rparr>,
            \<lparr>r_train = ''T2'', r_dept = ''RS'', r_stat = '''', r_vfrom = '''', r_vto = ''n/a''\<rparr>]\<rparr>) []
       = Inl ValueError"
proof -
  let ?f = "\<lparr>has_stat = False, has_vfrom = False, csv_rows =
           [\<lparr>r_train = ''T1'', r_dept = ''RS'', r_stat = '''', r_vfrom = '''', r_vto = ''01/02/2025''\<rparr>,
            \<lparr>r_train = ''T2'', r_dept = ''RS'', r_stat = '''', r_vfrom = '''', r_vto = ''n/a''\<rparr>]\<rparr>"
  have l: "\<forall>k s. length (example_to_datetime k s) = length s"
    by (simp add: example_to_datetime_def)
  have p: "parse_date_series example_to_datetime [''01/02/2025'', ''n/a'']
       = [Timestamp \<lparr>year = 2025, month = 1, day = 2, tod = 0\<rparr>, NaT]"
    by code_simp
  then have "NaT \<in> set (parse_date_series example_to_datetime (map r_vto (csv_rows ?f)))"
    by simp
  from upsert_from_csv_unparsed_expiry_raises [OF l this] l p show ?thesis by simp
qed

text \<open>
  C4 fails on the code. The first parse that \<^verbatim>\<open>_parse_date_series\<close> tries is the
  permissive one, before every explicit format: when it reads at least one cell of the
  column, its reading is kept for the whole column.
\<close>

theorem parse_date_series_permissive_first:
  assumes "notna_any (td Coerce s)"
  shows "parse_date_series td s = td Coerce s"
  using assms by (simp add: parse_date_series_def kws_def)

theorem parse_date_series_permissive_first_witness:
  "notna_any (example_to_datetime Coerce [''01/02/2024''])
   \<and> parse_date_series example_to_datetime [''01/02/2024'']
       = [Timestamp \<lparr>year = 2024, month = 1, day = 2, tod = 0\<rparr>]
   \<and> strptime ''01/02/2024'' ''%d/%m/%Y'' = Some \<lparr>year = 2024, month = 2, day = 1, tod = 0\<rparr>"
proof -
  have c: "example_to_datetime Coerce [''01/02/2024'']
             = [Timestamp \<lparr>year = 2024, month = 1, day = 2, tod = 0\<rparr>]"
    by code_simp
  then have n: "notna_any (example_to_datetime Coerce [''01/02/2024''])"
    by (simp add: notna_any_def)
  have s: "strptime ''01/02/2024'' ''%d/%m/%Y'' = Some \<lparr>year = 2024, month = 2, day = 1, tod = 0\<rparr>"
    by code_simp
  from parse_date_series_permissive_first [of example_to_datetime "[''01/02/2024'']", OF n] c n s
  show ?thesis by simp
qed


end
